theory Spec2Isabelle
  imports Complex_Main "HOL-Library.Sublist" "HOL-Library.Log_Nat"
begin

section \<open>The tables\<close>

text \<open>
  The three relations of \<^verbatim>\<open>backend/migrations/01_schema-setup.sql\<close> and
  \<^verbatim>\<open>backend/schema.ts\<close>. A table is the list of its rows. A \<^verbatim>\<open>NUMERIC(10, 2)\<close>
  value is fixed point with two decimals and is held as its number of hundredths, so
  \<^verbatim>\<open>100.00\<close> is \<open>10000\<close>. The key of an order, a UUID in the source, is a natural number.
  The serial key of \<^verbatim>\<open>order_items\<close> is left out: no statement of the program reads or
  writes it.
\<close>

type_synonym numeric = int

record ticket =
  ticket_id :: nat
  tier :: string
  price_usd :: numeric
  quantity_available :: int
  total_quantity :: int

record order_row =
  o_id :: nat
  user_id :: string
  total_amount :: numeric
  status :: string
  created_at :: nat

record order_item =
  order_id :: nat
  ticket_tier :: string
  quantity :: int
  price_at_purchase :: numeric

record db =
  tickets :: "ticket list"
  orders :: "order_row list"
  order_items :: "order_item list"

text \<open>The rows inserted by \<^verbatim>\<open>backend/migrations/02_schema_seed.sql\<close>.\<close>

definition seeded :: db where
  "seeded =
     \<lparr>tickets =
        [\<lparr>ticket_id = 1, tier = ''VIP'', price_usd = 10000,
          quantity_available = 10, total_quantity = 10\<rparr>,
         \<lparr>ticket_id = 2, tier = ''FRONT_ROW'', price_usd = 5000,
          quantity_available = 50, total_quantity = 50\<rparr>,
         \<lparr>ticket_id = 3, tier = ''GA'', price_usd = 1000,
          quantity_available = 200, total_quantity = 200\<rparr>],
      orders = [],
      order_items = []\<rparr>"

section \<open>Requests, responses and the environment of one call\<close>

text \<open>
  \<^verbatim>\<open>CartItem\<close> and \<^verbatim>\<open>BookingRequest\<close> of \<^verbatim>\<open>backend/index.ts\<close>. The handler tests
  whether \<^verbatim>\<open>userId\<close> and \<^verbatim>\<open>cartItems\<close> are present, so both fields are optional
  here: \<open>None\<close> is a field that is missing (or, for the cart, not an array). A quantity
  is a whole number, of either sign.
\<close>

record cart_item =
  item_tier :: string
  item_quantity :: int

record request =
  userId :: "string option"
  cartItems :: "cart_item list option"

text \<open>The objects pushed to the local array \<^verbatim>\<open>orderItems\<close>.\<close>

record line =
  line_tier :: string
  line_quantity :: int
  priceAtPurchase :: numeric

text \<open>
  The five error bodies the handler sends, named after their messages, and the body of
  a success: \<^verbatim>\<open>orderId\<close>, \<^verbatim>\<open>userId\<close>, \<^verbatim>\<open>totalAmount\<close>, \<^verbatim>\<open>items\<close>, \<^verbatim>\<open>status\<close>.
\<close>

datatype failure =
    InvalidRequest
  | InvalidTicketTier string
  | InsufficientStock string int int
  | PaymentFailed
  | ProcessingError

datatype body =
    Error failure
  | Data nat string numeric "line list" string

record response =
  code :: nat
  body :: body

text \<open>
  The arithmetic of JavaScript numbers is a parameter of the model: \<open>parseFloat\<close> reads
  a \<^verbatim>\<open>NUMERIC\<close> text, \<open>num_mul\<close> is \<^verbatim>\<open>*\<close> by a quantity, \<open>num_add\<close> is \<^verbatim>\<open>+=\<close>,
  \<open>num_zero\<close> is the literal \<^verbatim>\<open>0\<close> and \<open>toFixed2\<close> is \<^verbatim>\<open>toFixed(2)\<close>, whose text is
  read as hundredths. Every theorem below holds for every such arithmetic.
\<close>

record 'n number =
  parseFloat :: "numeric \<Rightarrow> 'n"
  num_mul :: "'n \<Rightarrow> int \<Rightarrow> 'n"
  num_add :: "'n \<Rightarrow> 'n \<Rightarrow> 'n"
  num_zero :: "'n"
  toFixed2 :: "'n \<Rightarrow> numeric"

text \<open>
  Exact arithmetic on hundredths. The numbers of the program agree with it as long as
  every intermediate value is a whole number of dollars below \<open>2 ^ 53\<close>, which is so in
  each concrete evaluation made with it.
\<close>

definition decimal :: "int number" where
  "decimal =
     \<lparr>parseFloat = (\<lambda>p. p), num_mul = (\<lambda>x q. x * q), num_add = (\<lambda>x y. x + y),
      num_zero = 0, toFixed2 = (\<lambda>x. x)\<rparr>"

text \<open>
  What one call takes from outside the program: \<open>rejects e k\<close> says that the \<open>k\<close>-th
  call of \<^verbatim>\<open>client.query\<close> on the connection (counted from 0) throws, for a lock
  timeout, a lost connection or a constraint of the schema, and a statement that throws
  has no effect on the store; \<open>random_lt_095\<close> is the value
  of \<^verbatim>\<open>Math.random() < 0.95\<close>; \<open>uuid_generate_v4\<close> and \<open>current_timestamp\<close> are the
  column defaults of \<^verbatim>\<open>orders\<close>.
\<close>

record env =
  rejects :: "nat \<Rightarrow> bool"
  random_lt_095 :: bool
  uuid_generate_v4 :: nat
  current_timestamp :: nat

text \<open>The statements sent over the connection, in the order of sending.\<close>

datatype stmt =
    BEGIN
  | SELECT_FOR_UPDATE string
  | INSERT_ORDER string numeric string
  | INSERT_ORDER_ITEM nat string int numeric
  | UPDATE_TICKETS string int
  | COMMIT
  | ROLLBACK

text \<open>
  A piece of the handler either throws (control goes to the \<^verbatim>\<open>catch\<close> block), returns a
  response, or goes on with a value. Each case carries the statements sent so far.
\<close>

datatype 'a outcome =
    Thrown "stmt list"
  | Returned response "stmt list"
  | Proceed 'a "stmt list"

fun and_then :: "'a outcome \<Rightarrow> ('a \<Rightarrow> stmt list \<Rightarrow> 'b outcome) \<Rightarrow> 'b outcome" where
  "and_then (Thrown sofar) f = Thrown sofar"
| "and_then (Returned r sofar) f = Returned r sofar"
| "and_then (Proceed x sofar) f = f x sofar"

section \<open>The booking handler\<close>

text \<open>
  \<^verbatim>\<open>simulatePayment\<close>: the amount is only logged.
\<close>

definition simulatePayment :: "env \<Rightarrow> string \<Rightarrow> 'n \<Rightarrow> bool" where
  "simulatePayment e u amount =
     (if prefix ''test-user'' u then True else random_lt_095 e)"

text \<open>
  \<^verbatim>\<open>await client.query('ROLLBACK'); return res.status(c).json(...)\<close>, the way the handler
  leaves the transaction on a refusal.
\<close>

definition refuse :: "env \<Rightarrow> nat \<Rightarrow> failure \<Rightarrow> stmt list \<Rightarrow> 'a outcome" where
  "refuse e c f sofar =
     (if rejects e (length sofar) then Thrown (sofar @ [ROLLBACK])
      else Returned \<lparr>code = c, body = Error f\<rparr> (sofar @ [ROLLBACK]))"

text \<open>
  The first loop, over \<^verbatim>\<open>cartItems\<close>: lock and read the row of the tier, refuse an
  unknown tier and a quantity above \<^verbatim>\<open>quantity_available\<close>, add to \<^verbatim>\<open>totalAmount\<close>
  and push to \<^verbatim>\<open>orderItems\<close>. Nothing is written before the loop ends, so every
  \<^verbatim>\<open>SELECT\<close> reads the table \<open>tk\<close> the transaction started with.
\<close>

fun lock_rows ::
  "'n number \<Rightarrow> env \<Rightarrow> ticket list \<Rightarrow> cart_item list \<Rightarrow> 'n \<Rightarrow> line list \<Rightarrow> stmt list
     \<Rightarrow> ('n \<times> line list) outcome" where
  "lock_rows N e tk [] totalAmount orderItems sofar = Proceed (totalAmount, orderItems) sofar"
| "lock_rows N e tk (item # rest) totalAmount orderItems sofar =
     (if rejects e (length sofar) then Thrown (sofar @ [SELECT_FOR_UPDATE (item_tier item)])
      else
        let rows = filter (\<lambda>r. tier r = item_tier item) tk;
            log' = sofar @ [SELECT_FOR_UPDATE (item_tier item)]
        in case rows of
             [] \<Rightarrow> refuse e 400 (InvalidTicketTier (item_tier item)) log'
           | row # _ \<Rightarrow>
               let available = quantity_available row; priceUsd = price_usd row
               in if item_quantity item > available
                  then refuse e 409
                         (InsufficientStock (item_tier item) (item_quantity item) available) log'
                  else lock_rows N e tk rest
                         (num_add N totalAmount
                            (num_mul N (parseFloat N priceUsd) (item_quantity item)))
                         (orderItems @
                            [\<lparr>line_tier = item_tier item, line_quantity = item_quantity item,
                              priceAtPurchase = priceUsd\<rparr>])
                         log')"

text \<open>
  \<^verbatim>\<open>INSERT INTO orders ... RETURNING id\<close>. The primary key refuses an id that is already
  in the table.
\<close>

definition insert_order ::
  "env \<Rightarrow> string \<Rightarrow> numeric \<Rightarrow> db \<Rightarrow> stmt list \<Rightarrow> (nat \<times> db) outcome" where
  "insert_order e u amount w sofar =
     (if rejects e (length sofar) \<or> uuid_generate_v4 e \<in> set (map o_id (orders w))
      then Thrown (sofar @ [INSERT_ORDER u amount ''PAID''])
      else Proceed
             (uuid_generate_v4 e,
              w\<lparr>orders := orders w @
                   [\<lparr>o_id = uuid_generate_v4 e, user_id = u, total_amount = amount,
                     status = ''PAID'', created_at = current_timestamp e\<rparr>]\<rparr>)
             (sofar @ [INSERT_ORDER u amount ''PAID'']))"

text \<open>
  \<^verbatim>\<open>UPDATE tickets SET quantity_available = quantity_available - $2 WHERE tier = $1\<close>.
\<close>

definition update_tickets :: "string \<Rightarrow> int \<Rightarrow> ticket list \<Rightarrow> ticket list" where
  "update_tickets t q tk =
     map (\<lambda>r. if tier r = t then r\<lparr>quantity_available := quantity_available r - q\<rparr> else r) tk"

text \<open>The second loop, over \<^verbatim>\<open>orderItems\<close>: insert the order item, then update the stock.\<close>

fun write_items :: "env \<Rightarrow> nat \<Rightarrow> line list \<Rightarrow> db \<Rightarrow> stmt list \<Rightarrow> db outcome" where
  "write_items e orderId [] w sofar = Proceed w sofar"
| "write_items e orderId (item # rest) w sofar =
     (let ins = INSERT_ORDER_ITEM orderId (line_tier item) (line_quantity item)
                  (priceAtPurchase item);
          upd = UPDATE_TICKETS (line_tier item) (line_quantity item)
      in if rejects e (length sofar) then Thrown (sofar @ [ins])
         else if rejects e (Suc (length sofar)) then Thrown (sofar @ [ins, upd])
         else write_items e orderId rest
                (w\<lparr>order_items := order_items w @
                      [\<lparr>order_id = orderId, ticket_tier = line_tier item,
                        quantity = line_quantity item,
                        price_at_purchase = priceAtPurchase item\<rparr>],
                    tickets := update_tickets (line_tier item) (line_quantity item) (tickets w)\<rparr>)
                (sofar @ [ins, upd]))"

text \<open>
  The body of the \<^verbatim>\<open>try\<close> block, from \<^verbatim>\<open>BEGIN\<close> to \<^verbatim>\<open>COMMIT\<close>, on the store \<open>s\<close> the
  transaction starts from. It goes on with the response and the store to commit.
\<close>

definition transaction ::
  "'n number \<Rightarrow> env \<Rightarrow> db \<Rightarrow> string \<Rightarrow> cart_item list \<Rightarrow> (response \<times> db) outcome" where
  "transaction N e s u cart =
     (if rejects e 0 then Thrown [BEGIN]
      else
        and_then (lock_rows N e (tickets s) cart (num_zero N) [] [BEGIN])
          (\<lambda>(totalAmount, orderItems) sofar.
             if \<not> simulatePayment e u totalAmount then refuse e 400 PaymentFailed sofar
             else
               and_then (insert_order e u (toFixed2 N totalAmount) s sofar)
                 (\<lambda>(orderId, w) sofar.
                    and_then (write_items e orderId orderItems w sofar)
                      (\<lambda>w sofar.
                         if rejects e (length sofar) then Thrown (sofar @ [COMMIT])
                         else Proceed
                                (\<lparr>code = 201,
                                  body = Data orderId u (toFixed2 N totalAmount) orderItems
                                           ''PAID''\<rparr>, w)
                                (sofar @ [COMMIT])))))"

text \<open>
  One call of \<^verbatim>\<open>POST /api/book\<close> on the store \<open>s\<close>: the response, the store after the
  call and the statements sent. The \<^verbatim>\<open>catch\<close> block rolls back, ignoring an error of
  the \<^verbatim>\<open>ROLLBACK\<close> itself, and answers 500. A transaction that is not committed leaves
  the store as it was.
\<close>

record run =
  reply :: response
  store :: db
  trace :: "stmt list"

definition book :: "'n number \<Rightarrow> env \<Rightarrow> db \<Rightarrow> request \<Rightarrow> run" where
  "book N e s req =
     (case (userId req, cartItems req) of
        (Some u, Some cart) \<Rightarrow>
          if u = [] \<or> cart = []
          then \<lparr>reply = \<lparr>code = 400, body = Error InvalidRequest\<rparr>, store = s, trace = []\<rparr>
          else (case transaction N e s u cart of
                  Thrown sofar \<Rightarrow>
                    \<lparr>reply = \<lparr>code = 500, body = Error ProcessingError\<rparr>, store = s,
                     trace = sofar @ [ROLLBACK]\<rparr>
                | Returned r sofar \<Rightarrow> \<lparr>reply = r, store = s, trace = sofar\<rparr>
                | Proceed (r, w) sofar \<Rightarrow> \<lparr>reply = r, store = w, trace = sofar\<rparr>)
      | _ \<Rightarrow> \<lparr>reply = \<lparr>code = 400, body = Error InvalidRequest\<rparr>, store = s, trace = []\<rparr>)"

text \<open>A call in which no statement is rejected, the payment draw succeeds and the id is 0.\<close>

definition calm :: env where
  "calm = \<lparr>rejects = (\<lambda>k. False), random_lt_095 = True, uuid_generate_v4 = 0,
           current_timestamp = 0\<rparr>"

section \<open>What a call does, in closed form\<close>

text \<open>The row a \<^verbatim>\<open>SELECT ... WHERE tier = $1\<close> returns first, \<^verbatim>\<open>result.rows[0]\<close>.\<close>

definition first_row :: "ticket list \<Rightarrow> string \<Rightarrow> ticket option" where
  "first_row tk t = find (\<lambda>r. tier r = t) tk"

text \<open>One round of \<^verbatim>\<open>totalAmount += parseFloat(priceUsd) * item.quantity\<close>.\<close>

definition add_line :: "'n number \<Rightarrow> 'n \<Rightarrow> line \<Rightarrow> 'n" where
  "add_line N acc l =
     num_add N acc (num_mul N (parseFloat N (priceAtPurchase l)) (line_quantity l))"

text \<open>The line pushed for a cart item that passed both checks of the first loop: the tier has
  a row, the quantity is at most the \<^verbatim>\<open>quantity_available\<close> of that row, and the
  line carries the \<^verbatim>\<open>price_usd\<close> of that row.\<close>

definition validated :: "ticket list \<Rightarrow> cart_item \<Rightarrow> line \<Rightarrow> bool" where
  "validated tk c l =
     (line_tier l = item_tier c \<and> line_quantity l = item_quantity c \<and>
      (case first_row tk (item_tier c) of
         None \<Rightarrow> False
       | Some row \<Rightarrow> priceAtPurchase l = price_usd row \<and> item_quantity c \<le> quantity_available row))"

text \<open>The row that \<^verbatim>\<open>INSERT INTO order_items\<close> adds for a line.\<close>

definition item_row :: "nat \<Rightarrow> line \<Rightarrow> order_item" where
  "item_row orderId l =
     \<lparr>order_id = orderId, ticket_tier = line_tier l, quantity = line_quantity l,
      price_at_purchase = priceAtPurchase l\<rparr>"

text \<open>The \<^verbatim>\<open>UPDATE\<close> of the stock for a line.\<close>

definition decrement :: "ticket list \<Rightarrow> line \<Rightarrow> ticket list" where
  "decrement tk l = update_tickets (line_tier l) (line_quantity l) tk"

text \<open>The two statements the second loop sends for a line.\<close>

definition item_stmts :: "nat \<Rightarrow> line \<Rightarrow> stmt list" where
  "item_stmts orderId l =
     [INSERT_ORDER_ITEM orderId (line_tier l) (line_quantity l) (priceAtPurchase l),
      UPDATE_TICKETS (line_tier l) (line_quantity l)]"

text \<open>The text \<^verbatim>\<open>totalAmount.toFixed(2)\<close> for the lines of a call.\<close>

definition order_total :: "'n number \<Rightarrow> line list \<Rightarrow> numeric" where
  "order_total N its = toFixed2 N (foldl (add_line N) (num_zero N) its)"

text \<open>The row that \<^verbatim>\<open>INSERT INTO orders\<close> adds.\<close>

definition new_order :: "'n number \<Rightarrow> env \<Rightarrow> string \<Rightarrow> line list \<Rightarrow> order_row" where
  "new_order N e u its =
     \<lparr>o_id = uuid_generate_v4 e, user_id = u, total_amount = order_total N its,
      status = ''PAID'', created_at = current_timestamp e\<rparr>"

text \<open>The store a committed call leaves.\<close>

definition committed :: "'n number \<Rightarrow> env \<Rightarrow> db \<Rightarrow> string \<Rightarrow> line list \<Rightarrow> db" where
  "committed N e s u its =
     \<lparr>tickets = foldl decrement (tickets s) its,
      orders = orders s @ [new_order N e u its],
      order_items = order_items s @ map (item_row (uuid_generate_v4 e)) its\<rparr>"

text \<open>The statements of a committed call.\<close>

definition success_trace :: "'n number \<Rightarrow> env \<Rightarrow> string \<Rightarrow> cart_item list \<Rightarrow> line list \<Rightarrow> stmt list" where
  "success_trace N e u cart its =
     [BEGIN] @ map (\<lambda>c. SELECT_FOR_UPDATE (item_tier c)) cart @
     [INSERT_ORDER u (order_total N its) ''PAID''] @
     concat (map (item_stmts (uuid_generate_v4 e)) its) @ [COMMIT]"

section \<open>Statuses, and the inputs of the concrete evaluations\<close>

text \<open>The status each error body is sent with, read off the handler's \<^verbatim>\<open>res.status\<close> calls.\<close>

definition failure_code :: "failure \<Rightarrow> nat" where
  "failure_code f =
     (case f of
        InvalidRequest \<Rightarrow> 400
      | InvalidTicketTier t \<Rightarrow> 400
      | InsufficientStock t q a \<Rightarrow> 409
      | PaymentFailed \<Rightarrow> 400
      | ProcessingError \<Rightarrow> 500)"

text \<open>
  The status categories the specification speaks of: 409 is the conflict status, the
  other 4xx are client errors, 5xx are service errors.
\<close>

datatype category = Success | ClientError | Conflict | ServiceError | Other

definition category :: "nat \<Rightarrow> category" where
  "category c =
     (if 200 \<le> c \<and> c < 300 then Success
      else if c = 409 then Conflict
      else if 400 \<le> c \<and> c < 500 then ClientError
      else if 500 \<le> c \<and> c < 600 then ServiceError
      else Other)"

text \<open>A call in which \<^verbatim>\<open>Math.random()\<close> is 0.95 or more.\<close>

definition unlucky :: env where
  "unlucky = calm\<lparr>random_lt_095 := False\<rparr>"

text \<open>The request of user \<open>u\<close> for one VIP ticket.\<close>

definition one_vip :: "string \<Rightarrow> request" where
  "one_vip u = \<lparr>userId = Some u, cartItems = Some [\<lparr>item_tier = ''VIP'', item_quantity = 1\<rparr>]\<rparr>"

text \<open>The request of user \<open>u\<close> for a cart given as pairs of tier and quantity.\<close>

definition cart_request :: "string \<Rightarrow> (string \<times> int) list \<Rightarrow> request" where
  "cart_request u c =
     \<lparr>userId = Some u, cartItems = Some (map (\<lambda>(t, q). \<lparr>item_tier = t, item_quantity = q\<rparr>) c)\<rparr>"

section \<open>Reachable stores and what they conserve\<close>

text \<open>The lock-and-read statements and the stock updates among the statements of a call.\<close>

fun is_select :: "stmt \<Rightarrow> bool" where
  "is_select (SELECT_FOR_UPDATE t) = True"
| "is_select q = False"

fun is_update :: "stmt \<Rightarrow> bool" where
  "is_update (UPDATE_TICKETS t q) = True"
| "is_update q = False"

text \<open>
  A store is reachable when it is the seeded store or the store that a call of \<open>book\<close>,
  with any request and any environment, leaves from a reachable store.
\<close>

inductive reachable :: "'n number \<Rightarrow> db \<Rightarrow> bool" for N :: "'n number" where
  seed: "reachable N seeded"
| call: "reachable N s \<Longrightarrow> reachable N (store (book N e s req))"

text \<open>
  An order item is paid when its order is in \<^verbatim>\<open>orders\<close> with status \<^verbatim>\<open>PAID\<close>;
  \<open>paid_quantity s t\<close> is the sum of \<^verbatim>\<open>quantity\<close> over the paid order items of tier
  \<open>t\<close>.
\<close>

definition paid :: "db \<Rightarrow> order_item \<Rightarrow> bool" where
  "paid s l = list_ex (\<lambda>ord. o_id ord = order_id l \<and> status ord = ''PAID'') (orders s)"

definition paid_quantity :: "db \<Rightarrow> string \<Rightarrow> int" where
  "paid_quantity s t =
     sum_list (map quantity (filter (\<lambda>l. ticket_tier l = t \<and> paid s l) (order_items s)))"

definition all_paid :: "db \<Rightarrow> bool" where
  "all_paid s = list_all (paid s) (order_items s)"

text \<open>The quantity the lines of one call ask of tier \<open>t\<close>.\<close>

definition tier_quantity :: "string \<Rightarrow> line list \<Rightarrow> int" where
  "tier_quantity t its = sum_list (map line_quantity (filter (\<lambda>l. line_tier l = t) its))"

text \<open>The statements a piece of the handler has sent, whatever its outcome.\<close>

fun sent :: "'a outcome \<Rightarrow> stmt list" where
  "sent (Thrown sofar) = sofar"
| "sent (Returned r sofar) = sofar"
| "sent (Proceed x sofar) = sofar"

section \<open>The ledger of orders\<close>


definition add_row :: "'n number \<Rightarrow> 'n \<Rightarrow> order_item \<Rightarrow> 'n" where
  "add_row N acc l = num_add N acc (num_mul N (parseFloat N (price_at_purchase l)) (quantity l))"

definition recomputed :: "'n number \<Rightarrow> order_item list \<Rightarrow> numeric" where
  "recomputed N ls = toFixed2 N (foldl (add_row N) (num_zero N) ls)"






section \<open>The numbers of JavaScript\<close>







text \<open>
  The exact sums the specification speaks of, in hundredths: quantity times price at
  purchase over the items of an order, and quantity times price over the lines of a
  cart. \<open>dollars\<close> is the amount of an item whose price is a whole number of dollars.
\<close>

definition exact_sum :: "order_item list \<Rightarrow> numeric" where
  "exact_sum ls = sum_list (map (\<lambda>l. quantity l * price_at_purchase l) ls)"










section \<open>The two loops and the transaction\<close>

lemma filter_Nil_first_row: "filter (\<lambda>r. tier r = t) tk = [] \<Longrightarrow> first_row tk t = None"
  unfolding first_row_def by (induction tk) (auto split: if_splits)

lemma filter_Cons_first_row:
  "filter (\<lambda>r. tier r = t) tk = row # others \<Longrightarrow> first_row tk t = Some row"
  unfolding first_row_def by (induction tk) (auto split: if_splits)

lemma first_row_filter:
  "first_row tk t = Some row \<Longrightarrow> \<exists>others. filter (\<lambda>r. tier r = t) tk = row # others"
  unfolding first_row_def by (induction tk) (auto split: if_splits)

lemma refuse_not_Proceed: "refuse e c f sofar \<noteq> Proceed x log'"
  by (simp add: refuse_def)

lemma lock_rows_Proceed:
  "lock_rows N e tk cart t0 its0 log0 = Proceed (t, its) sofar \<Longrightarrow>
     \<exists>new. its = its0 @ new \<and> list_all2 (validated tk) cart new \<and>
           t = foldl (add_line N) t0 new \<and>
           sofar = log0 @ map (\<lambda>c. SELECT_FOR_UPDATE (item_tier c)) cart"
proof (induction cart arbitrary: t0 its0 log0)
  case Nil
  then show ?case by simp
next
  case (Cons c cart)
  let ?rows = "filter (\<lambda>r. tier r = item_tier c) tk"
  from Cons.prems have nr: "\<not> rejects e (length log0)"
    by (auto split: if_splits)
  from Cons.prems nr obtain row others where rows: "?rows = row # others"
    by (cases ?rows) (auto simp: refuse_not_Proceed Let_def)
  from Cons.prems nr rows have le: "item_quantity c \<le> quantity_available row"
    by (auto simp: refuse_not_Proceed Let_def split: if_splits)
  let ?l = "\<lparr>line_tier = item_tier c, line_quantity = item_quantity c,
             priceAtPurchase = price_usd row\<rparr>"
  from Cons.prems nr rows le
  have rec: "lock_rows N e tk cart (add_line N t0 ?l) (its0 @ [?l])
               (log0 @ [SELECT_FOR_UPDATE (item_tier c)]) = Proceed (t, its) sofar"
    by (simp add: Let_def add_line_def)
  from Cons.IH [OF rec] obtain new where new:
    "its = (its0 @ [?l]) @ new" "list_all2 (validated tk) cart new"
    "t = foldl (add_line N) (add_line N t0 ?l) new"
    "sofar = (log0 @ [SELECT_FOR_UPDATE (item_tier c)]) @ map (\<lambda>c. SELECT_FOR_UPDATE (item_tier c)) cart"
    by blast
  have v: "validated tk c ?l"
    using filter_Cons_first_row [OF rows] le by (simp add: validated_def)
  show ?case
    by (rule exI [of _ "?l # new"]) (use new v in simp)
qed

lemma write_items_Proceed:
  "write_items e orderId its w sofar = Proceed w' log' \<Longrightarrow>
     w' = w\<lparr>order_items := order_items w @ map (item_row orderId) its,
            tickets := foldl decrement (tickets w) its\<rparr> \<and>
     log' = sofar @ concat (map (item_stmts orderId) its)"
proof (induction its arbitrary: w sofar)
  case Nil
  then show ?case by simp
next
  case (Cons l its)
  from Cons.prems have nr: "\<not> rejects e (length sofar)" "\<not> rejects e (Suc (length sofar))"
    by (auto simp: Let_def split: if_splits)
  let ?w1 = "w\<lparr>order_items := order_items w @ [item_row orderId l],
               tickets := decrement (tickets w) l\<rparr>"
  from Cons.prems nr
  have rec: "write_items e orderId its ?w1 (sofar @ item_stmts orderId l) = Proceed w' log'"
    by (simp add: Let_def item_row_def decrement_def item_stmts_def)
  from Cons.IH [OF rec] show ?case by simp
qed

lemma lock_rows_Returned:
  "lock_rows N e tk cart t0 its0 log0 = Returned r sofar \<Longrightarrow>
     ((\<exists>t. r = \<lparr>code = 400, body = Error (InvalidTicketTier t)\<rparr>) \<or>
      (\<exists>t q a. r = \<lparr>code = 409, body = Error (InsufficientStock t q a)\<rparr>)) \<and>
     (\<exists>l. sofar = l @ [ROLLBACK])"
proof (induction cart arbitrary: t0 its0 log0)
  case Nil
  then show ?case by simp
next
  case (Cons c cart)
  show ?case
  proof (cases "filter (\<lambda>r. tier r = item_tier c) tk")
    case Nil
    with Cons.prems show ?thesis
      by (auto simp: refuse_def Let_def split: if_splits)
  next
    case (Cons row others)
    with Cons.prems Cons.IH show ?thesis
      by (auto simp: refuse_def Let_def split: if_splits)
  qed
qed

lemma transaction_Proceed:
  assumes "transaction N e s u cart = Proceed (r, w) sofar"
  shows "\<exists>its. list_all2 (validated (tickets s)) cart its \<and>
           simulatePayment e u (foldl (add_line N) (num_zero N) its) \<and>
           uuid_generate_v4 e \<notin> set (map o_id (orders s)) \<and>
           w = committed N e s u its \<and>
           r = \<lparr>code = 201,
                body = Data (uuid_generate_v4 e) u (order_total N its) its ''PAID''\<rparr> \<and>
           sofar = success_trace N e u cart its"
proof -
  from assms have nr: "\<not> rejects e 0"
    by (auto simp: transaction_def split: if_splits)
  obtain t its l1 where lr:
    "lock_rows N e (tickets s) cart (num_zero N) [] [BEGIN] = Proceed (t, its) l1"
    using assms nr
    by (cases "lock_rows N e (tickets s) cart (num_zero N) [] [BEGIN]")
       (auto simp: transaction_def)
  from lock_rows_Proceed [OF lr] have its:
    "list_all2 (validated (tickets s)) cart its" "t = foldl (add_line N) (num_zero N) its"
    "l1 = [BEGIN] @ map (\<lambda>c. SELECT_FOR_UPDATE (item_tier c)) cart"
    by auto
  from assms nr lr have pay: "simulatePayment e u t"
    by (auto simp: transaction_def refuse_not_Proceed split: if_splits)
  let ?amount = "toFixed2 N t"
  from assms nr lr pay
  have rest: "and_then (insert_order e u ?amount s l1)
                (\<lambda>(orderId, w) sofar.
                    and_then (write_items e orderId its w sofar)
                      (\<lambda>w sofar.
                         if rejects e (length sofar) then Thrown (sofar @ [COMMIT])
                         else Proceed
                                (\<lparr>code = 201,
                                  body = Data orderId u ?amount its ''PAID''\<rparr>, w)
                                (sofar @ [COMMIT]))) = Proceed (r, w) sofar"
    by (simp add: transaction_def)
  then have fresh: "uuid_generate_v4 e \<notin> set (map o_id (orders s))"
    and nr1: "\<not> rejects e (length l1)"
    by (auto simp: insert_order_def split: if_splits)
  let ?w1 = "s\<lparr>orders := orders s @ [new_order N e u its]\<rparr>"
  let ?l2 = "l1 @ [INSERT_ORDER u ?amount ''PAID'']"
  from rest fresh nr1 its(2)
  have rest2: "and_then (write_items e (uuid_generate_v4 e) its ?w1 ?l2)
                      (\<lambda>w sofar.
                         if rejects e (length sofar) then Thrown (sofar @ [COMMIT])
                         else Proceed
                                (\<lparr>code = 201,
                                  body = Data (uuid_generate_v4 e) u ?amount its ''PAID''\<rparr>, w)
                                (sofar @ [COMMIT])) = Proceed (r, w) sofar"
    by (simp add: insert_order_def new_order_def order_total_def)
  then obtain w2 l3 where wi: "write_items e (uuid_generate_v4 e) its ?w1 ?l2 = Proceed w2 l3"
    by (cases "write_items e (uuid_generate_v4 e) its ?w1 ?l2") auto
  from write_items_Proceed [OF wi]
  have w2: "w2 = committed N e s u its"
    and l3: "l3 = ?l2 @ concat (map (item_stmts (uuid_generate_v4 e)) its)"
    by (simp_all add: committed_def)
  from rest2 wi have fin: "\<not> rejects e (length l3)" "w = w2"
    "r = \<lparr>code = 201, body = Data (uuid_generate_v4 e) u ?amount its ''PAID''\<rparr>"
    "sofar = l3 @ [COMMIT]"
    by (auto split: if_splits)
  show ?thesis
    by (rule exI [of _ its])
       (use its pay fresh w2 l3 fin in \<open>simp add: order_total_def success_trace_def\<close>)
qed

lemma write_items_not_Returned: "write_items e orderId its w sofar \<noteq> Returned r log'"
  by (induction its arbitrary: w sofar) (auto simp: Let_def)

lemma transaction_Returned:
  assumes "transaction N e s u cart = Returned r sofar"
  shows "((\<exists>t. r = \<lparr>code = 400, body = Error (InvalidTicketTier t)\<rparr>) \<or>
          (\<exists>t q a. r = \<lparr>code = 409, body = Error (InsufficientStock t q a)\<rparr>) \<or>
          (r = \<lparr>code = 400, body = Error PaymentFailed\<rparr> \<and> \<not> prefix ''test-user'' u \<and>
           \<not> random_lt_095 e)) \<and>
         (\<exists>l. sofar = l @ [ROLLBACK])"
proof (cases "lock_rows N e (tickets s) cart (num_zero N) [] [BEGIN]")
  case (Thrown l)
  with assms show ?thesis by (auto simp: transaction_def split: if_splits)
next
  case (Returned r' l)
  with assms have "r' = r" "l = sofar" by (auto simp: transaction_def split: if_splits)
  with lock_rows_Returned [OF Returned] show ?thesis by blast
next
  case (Proceed x l)
  obtain t its where x: "x = (t, its)" by (cases x)
  show ?thesis
  proof (cases "simulatePayment e u t")
    case True
    with assms Proceed x have "and_then (insert_order e u (toFixed2 N t) s l)
                 (\<lambda>(orderId, w) sofar.
                    and_then (write_items e orderId its w sofar)
                      (\<lambda>w sofar.
                         if rejects e (length sofar) then Thrown (sofar @ [COMMIT])
                         else Proceed
                                (\<lparr>code = 201,
                                  body = Data orderId u (toFixed2 N t) its
                                           ''PAID''\<rparr>, w)
                                (sofar @ [COMMIT]))) = Returned r sofar"
      by (auto simp: transaction_def split: if_splits)
    then show ?thesis
      by (cases "write_items e (uuid_generate_v4 e) its
                   (s\<lparr>orders := orders s @
                       [\<lparr>o_id = uuid_generate_v4 e, user_id = u, total_amount = toFixed2 N t,
                         status = ''PAID'', created_at = current_timestamp e\<rparr>]\<rparr>)
                   (l @ [INSERT_ORDER u (toFixed2 N t) ''PAID''])")
         (auto simp: insert_order_def write_items_not_Returned split: if_splits)
  next
    case False
    with assms Proceed x show ?thesis
      by (auto simp: transaction_def refuse_def simulatePayment_def split: if_splits)
  qed
qed

section \<open>The outcomes of a call\<close>

text \<open>
  A call either answers with an error body and the status of its kind, leaving the store
  as it was, or it commits: every cart item has passed both checks on the store the call
  started from, the payment was accepted, and the store, the response and the statements
  are the ones given in closed form above.
\<close>

lemma book_outcome:
  "(\<exists>f. reply (book N e s req) = \<lparr>code = failure_code f, body = Error f\<rparr> \<and>
        store (book N e s req) = s \<and>
        (trace (book N e s req) = [] \<or> last (trace (book N e s req)) = ROLLBACK) \<and>
        (f = PaymentFailed \<longrightarrow>
           (\<exists>u. userId req = Some u \<and> \<not> prefix ''test-user'' u) \<and> \<not> random_lt_095 e)) \<or>
   (\<exists>u cart its.
        userId req = Some u \<and> u \<noteq> [] \<and> cartItems req = Some cart \<and> cart \<noteq> [] \<and>
        list_all2 (validated (tickets s)) cart its \<and>
        simulatePayment e u (foldl (add_line N) (num_zero N) its) \<and>
        uuid_generate_v4 e \<notin> set (map o_id (orders s)) \<and>
        book N e s req =
          \<lparr>reply = \<lparr>code = 201,
                     body = Data (uuid_generate_v4 e) u (order_total N its) its ''PAID''\<rparr>,
           store = committed N e s u its,
           trace = success_trace N e u cart its\<rparr>)"
proof (cases "userId req")
  case None
  then show ?thesis
    by (intro disjI1 exI [of _ InvalidRequest]) (simp add: book_def failure_code_def)
next
  case (Some u)
  note u = this
  show ?thesis
  proof (cases "cartItems req")
    case None
    with u show ?thesis
      by (intro disjI1 exI [of _ InvalidRequest]) (simp add: book_def failure_code_def)
  next
    case (Some cart)
    note cart = this
    show ?thesis
    proof (cases "u = [] \<or> cart = []")
      case True
      with u cart show ?thesis
        by (intro disjI1 exI [of _ InvalidRequest]) (auto simp: book_def failure_code_def)
    next
      case False
      show ?thesis
      proof (cases "transaction N e s u cart")
        case (Thrown sofar)
        with u cart False show ?thesis
          by (intro disjI1 exI [of _ ProcessingError]) (simp add: book_def failure_code_def)
      next
        case (Returned r sofar)
        from transaction_Returned [OF Returned]
        obtain f l where f: "r = \<lparr>code = failure_code f, body = Error f\<rparr>"
          "f = PaymentFailed \<longrightarrow> \<not> prefix ''test-user'' u \<and> \<not> random_lt_095 e"
          "sofar = l @ [ROLLBACK]"
          by (auto simp: failure_code_def)
        with u cart False Returned show ?thesis
          by (intro disjI1 exI [of _ f]) (simp add: book_def)
      next
        case (Proceed x sofar)
        obtain r w where x: "x = (r, w)" by (cases x)
        from transaction_Proceed [OF Proceed [unfolded x]]
        obtain its where its: "list_all2 (validated (tickets s)) cart its"
          "simulatePayment e u (foldl (add_line N) (num_zero N) its)"
          "uuid_generate_v4 e \<notin> set (map o_id (orders s))"
          "w = committed N e s u its"
          "r = \<lparr>code = 201,
                body = Data (uuid_generate_v4 e) u (order_total N its) its ''PAID''\<rparr>"
          "sofar = success_trace N e u cart its"
          by blast
        show ?thesis
          by (intro disjI2 exI [of _ u] exI [of _ cart] exI [of _ its])
             (use u cart False Proceed x its in \<open>simp add: book_def\<close>)
      qed
    qed
  qed
qed

text \<open>The definitions a concrete call unfolds to.\<close>

lemmas run_defs =
  book_def transaction_def calm_def unlucky_def seeded_def decimal_def simulatePayment_def
  insert_order_def update_tickets_def refuse_def one_vip_def

section \<open>Failed calls\<close>



section \<open>Statuses\<close>

text \<open>
  Claim C8 says that a payment failure is answered with a service-error status. The
  handler answers it with 400, which is a client error.
\<close>

theorem payment_failure_is_400:
  "body (reply (book decimal unlucky seeded (one_vip ''user_1''))) = Error PaymentFailed \<and>
   code (reply (book decimal unlucky seeded (one_vip ''user_1''))) = 400 \<and>
   category (code (reply (book decimal unlucky seeded (one_vip ''user_1'')))) \<noteq> ServiceError"
  by (simp add: run_defs category_def)

text \<open>
  Claim C8, amended. Every call answers 201 with a success body, or an error body with
  the status of its kind: 400 (client error) for an invalid request, for an unknown tier
  and for a failed payment, 409 (conflict) for insufficient stock, 500 (service error) for
  a statement that throws.
\<close>

theorem status_of_each_outcome:
  "(case body (reply (book N e s req)) of
      Data i u a its st \<Rightarrow> code (reply (book N e s req)) = 201
    | Error f \<Rightarrow>
        code (reply (book N e s req)) =
          (case f of
             InvalidRequest \<Rightarrow> 400
           | InvalidTicketTier t \<Rightarrow> 400
           | InsufficientStock t q a \<Rightarrow> 409
           | PaymentFailed \<Rightarrow> 400
           | ProcessingError \<Rightarrow> 500) \<and>
        category (code (reply (book N e s req))) =
          (case f of
             InvalidRequest \<Rightarrow> ClientError
           | InvalidTicketTier t \<Rightarrow> ClientError
           | InsufficientStock t q a \<Rightarrow> Conflict
           | PaymentFailed \<Rightarrow> ClientError
           | ProcessingError \<Rightarrow> ServiceError))"
proof -
  from book_outcome [of N e s req]
  consider f where "reply (book N e s req) = \<lparr>code = failure_code f, body = Error f\<rparr>"
    | i u a its st where "reply (book N e s req) = \<lparr>code = 201, body = Data i u a its st\<rparr>"
    by (metis run.select_convs(1))
  then show ?thesis
  proof cases
    case 1
    then show ?thesis
      by (cases f) (simp_all add: failure_code_def category_def)
  next
    case 2
    then show ?thesis by simp
  qed
qed

section \<open>Test users\<close>

text \<open>
  Claim C10. For a user id that starts with \<^verbatim>\<open>test-user\<close>, \<open>simulatePayment\<close> returns
  true for every amount and every draw of \<^verbatim>\<open>Math.random()\<close>, so a call of \<open>book\<close> by
  such a user never answers that the payment failed.
\<close>

theorem test_user_always_pays:
  assumes "prefix ''test-user'' u"
  shows "simulatePayment e u amount \<and>
         body (reply (book N e' s \<lparr>userId = Some u, cartItems = cart\<rparr>)) \<noteq> Error PaymentFailed"
  using assms book_outcome [of N e' s "\<lparr>userId = Some u, cartItems = cart\<rparr>"]
  by (auto simp: simulatePayment_def)

text \<open>The user of the API tests, with a draw that would fail any other user.\<close>

theorem test_user_always_pays_witness:
  "prefix ''test-user'' ''test-user-123'' \<and>
   simulatePayment unlucky ''test-user-123'' (20000 :: int) \<and>
   body (reply (book decimal unlucky seeded (one_vip ''test-user-123''))) \<noteq> Error PaymentFailed \<and>
   code (reply (book decimal unlucky seeded (one_vip ''test-user-123''))) = 201"
proof -
  have h: "prefix ''test-user'' ''test-user-123''" by simp
  have c: "code (reply (book decimal unlucky seeded (one_vip ''test-user-123''))) = 201"
    by (simp add: run_defs)
  from test_user_always_pays [OF h, of unlucky "20000 :: int" decimal unlucky seeded
      "Some [\<lparr>item_tier = ''VIP'', item_quantity = 1\<rparr>]"] h c
  show ?thesis by (simp add: one_vip_def)
qed

section \<open>The bounds of the stock\<close>

text \<open>
  Claim C1 says that in every reachable store each tier has
  \<open>0 \<le> quantity_available \<le> total_quantity\<close>. Two calls on the seeded store break it.
  A cart with two lines of 6 VIP tickets each passes both checks against the 10 tickets
  read, is answered 201 and leaves \<open>quantity_available = - 2\<close>. A cart with a line of
  \<open>- 1\<close> VIP tickets leaves \<open>quantity_available = 11\<close> with \<open>total_quantity = 10\<close>.
\<close>

theorem duplicate_lines_oversell:
  "reachable decimal (store (book decimal calm seeded
      (cart_request ''test-user-1'' [(''VIP'', 6), (''VIP'', 6)]))) \<and>
   code (reply (book decimal calm seeded
      (cart_request ''test-user-1'' [(''VIP'', 6), (''VIP'', 6)]))) = 201 \<and>
   map quantity_available (tickets (store (book decimal calm seeded
      (cart_request ''test-user-1'' [(''VIP'', 6), (''VIP'', 6)])))) = [- 2, 50, 200] \<and>
   map total_quantity (tickets (store (book decimal calm seeded
      (cart_request ''test-user-1'' [(''VIP'', 6), (''VIP'', 6)])))) = [10, 50, 200] \<and>
   map quantity_available (tickets (store (book decimal calm seeded
      (cart_request ''test-user-1'' [(''VIP'', - 1)])))) = [11, 50, 200]"
proof -
  have "reachable decimal (store (book decimal calm seeded
      (cart_request ''test-user-1'' [(''VIP'', 6), (''VIP'', 6)])))"
    by (rule reachable.call [OF reachable.seed])
  then show ?thesis
    by (simp add: run_defs cart_request_def)
qed

section \<open>Quantities that are not positive\<close>

text \<open>
  Claim C6 says that a request with a line of quantity \<open>\<le> 0\<close> is rejected as invalid
  input before any transaction opens. The handler checks \<^verbatim>\<open>userId\<close> and \<^verbatim>\<open>cartItems\<close>
  only: a line of \<open>- 1\<close> VIP tickets opens a transaction, commits an order of
  \<^verbatim>\<open>-100.00\<close> and adds a ticket to the stock, and a line of 0 tickets commits an order
  as well.
\<close>

theorem nonpositive_quantity_is_booked:
  "book decimal calm seeded (cart_request ''test-user-1'' [(''VIP'', - 1)]) =
     \<lparr>reply = \<lparr>code = 201,
                body = Data 0 ''test-user-1'' (- 10000)
                         [\<lparr>line_tier = ''VIP'', line_quantity = - 1, priceAtPurchase = 10000\<rparr>]
                         ''PAID''\<rparr>,
      store = seeded
        \<lparr>tickets :=
           [\<lparr>ticket_id = 1, tier = ''VIP'', price_usd = 10000,
             quantity_available = 11, total_quantity = 10\<rparr>,
            \<lparr>ticket_id = 2, tier = ''FRONT_ROW'', price_usd = 5000,
             quantity_available = 50, total_quantity = 50\<rparr>,
            \<lparr>ticket_id = 3, tier = ''GA'', price_usd = 1000,
             quantity_available = 200, total_quantity = 200\<rparr>],
         orders :=
           [\<lparr>o_id = 0, user_id = ''test-user-1'', total_amount = - 10000,
             status = ''PAID'', created_at = 0\<rparr>],
         order_items :=
           [\<lparr>order_id = 0, ticket_tier = ''VIP'', quantity = - 1,
             price_at_purchase = 10000\<rparr>]\<rparr>,
      trace =
        [BEGIN, SELECT_FOR_UPDATE ''VIP'', INSERT_ORDER ''test-user-1'' (- 10000) ''PAID'',
         INSERT_ORDER_ITEM 0 ''VIP'' (- 1) 10000, UPDATE_TICKETS ''VIP'' (- 1), COMMIT]\<rparr> \<and>
   code (reply (book decimal calm seeded (cart_request ''test-user-1'' [(''VIP'', 0)]))) = 201 \<and>
   length (orders (store (book decimal calm seeded
      (cart_request ''test-user-1'' [(''VIP'', 0)])))) = 1"
  by (simp add: run_defs cart_request_def)

section \<open>The order of the locks\<close>

text \<open>
  Claim C3 says that \<open>book\<close> sorts the requested tiers and locks their rows in that
  order, so that two carts with the same tiers lock them in the same order. The handler
  locks in the order of the cart: the carts VIP, GA and GA, VIP lock the two rows in
  opposite orders.
\<close>

theorem locks_follow_the_cart:
  "filter is_select (trace (book decimal calm seeded
      (cart_request ''test-user-1'' [(''VIP'', 1), (''GA'', 1)]))) =
     [SELECT_FOR_UPDATE ''VIP'', SELECT_FOR_UPDATE ''GA''] \<and>
   filter is_select (trace (book decimal calm seeded
      (cart_request ''test-user-2'' [(''GA'', 1), (''VIP'', 1)]))) =
     [SELECT_FOR_UPDATE ''GA'', SELECT_FOR_UPDATE ''VIP'']"
  by (simp add: run_defs cart_request_def)


section \<open>Conservation\<close>

lemma tier_quantity_Cons:
  "tier_quantity t (l # its) = (if line_tier l = t then line_quantity l else 0) + tier_quantity t its"
  by (simp add: tier_quantity_def)

lemma foldl_decrement:
  "foldl decrement tk its =
     map (\<lambda>r. r\<lparr>quantity_available := quantity_available r - tier_quantity (tier r) its\<rparr>) tk"
proof (induction its arbitrary: tk)
  case Nil
  show ?case by (simp add: tier_quantity_def map_idI)
next
  case (Cons l its)
  have "foldl decrement tk (l # its) =
          map (\<lambda>r. r\<lparr>quantity_available := quantity_available r - tier_quantity (tier r) its\<rparr>)
            (decrement tk l)"
    by (simp add: Cons.IH)
  also have "\<dots> =
          map (\<lambda>r. r\<lparr>quantity_available :=
                       quantity_available r - tier_quantity (tier r) (l # its)\<rparr>) tk"
    by (auto simp: decrement_def update_tickets_def tier_quantity_Cons)
  finally show ?case .
qed

lemma new_rows_quantity:
  "sum_list (map quantity (filter (\<lambda>l. ticket_tier l = t) (map (item_row i) its))) =
     tier_quantity t its"
  by (induction its) (simp_all add: tier_quantity_def item_row_def)

lemma paid_committed_old: "paid s l \<Longrightarrow> paid (committed N e s u its) l"
  by (simp add: paid_def committed_def)

lemma paid_committed_new: "paid (committed N e s u its) (item_row (uuid_generate_v4 e) l)"
  by (simp add: paid_def committed_def new_order_def item_row_def)

lemma all_paid_committed:
  assumes "all_paid s"
  shows "all_paid (committed N e s u its)"
proof -
  have old: "list_all (paid (committed N e s u its)) (order_items s)"
    using assms by (auto simp: all_paid_def list_all_iff intro: paid_committed_old)
  have new: "list_all (paid (committed N e s u its)) (map (item_row (uuid_generate_v4 e)) its)"
    by (simp add: list_all_iff paid_committed_new)
  from old new show ?thesis
    by (simp add: all_paid_def committed_def)
qed

lemma paid_quantity_committed:
  assumes "all_paid s"
  shows "paid_quantity (committed N e s u its) t = paid_quantity s t + tier_quantity t its"
proof -
  let ?s' = "committed N e s u its"
  have old: "filter (\<lambda>l. ticket_tier l = t \<and> paid ?s' l) (order_items s) =
             filter (\<lambda>l. ticket_tier l = t \<and> paid s l) (order_items s)"
    using assms by (intro filter_cong) (auto simp: all_paid_def list_all_iff intro: paid_committed_old)
  have new: "filter (\<lambda>l. ticket_tier l = t \<and> paid ?s' l) (map (item_row (uuid_generate_v4 e)) its) =
             filter (\<lambda>l. ticket_tier l = t) (map (item_row (uuid_generate_v4 e)) its)"
    by (intro filter_cong) (auto simp: paid_committed_new)
  have "order_items ?s' = order_items s @ map (item_row (uuid_generate_v4 e)) its"
    by (simp add: committed_def)
  then show ?thesis
    by (simp add: paid_quantity_def old new new_rows_quantity)
qed

lemma tickets_committed:
  "map tier (tickets (committed N e s u its)) = map tier (tickets s) \<and>
   map total_quantity (tickets (committed N e s u its)) = map total_quantity (tickets s)"
  by (simp add: committed_def foldl_decrement comp_def)

lemma reachable_invariant:
  assumes "reachable N s"
  shows "all_paid s \<and>
         map tier (tickets s) = map tier (tickets seeded) \<and>
         map total_quantity (tickets s) = map total_quantity (tickets seeded) \<and>
         (\<forall>r\<in>set (tickets s). total_quantity r - quantity_available r = paid_quantity s (tier r))"
  using assms
proof (induction rule: reachable.induct)
  case seed
  show ?case by (simp add: seeded_def all_paid_def paid_quantity_def)
next
  case (call s e req)
  from book_outcome [of N e s req]
  consider "store (book N e s req) = s"
    | u its where "store (book N e s req) = committed N e s u its"
    by (metis run.select_convs(2))
  then show ?case
  proof cases
    case 1
    with call.IH show ?thesis by simp
  next
    case 2
    from call.IH have ap: "all_paid s"
      and tiers: "map tier (tickets s) = map tier (tickets seeded)"
      and totals: "map total_quantity (tickets s) = map total_quantity (tickets seeded)"
      and cons: "\<And>r. r \<in> set (tickets s) \<Longrightarrow>
                   total_quantity r - quantity_available r = paid_quantity s (tier r)"
      by auto
    have "total_quantity r' - quantity_available r' = paid_quantity (committed N e s u its) (tier r')"
      if "r' \<in> set (tickets (committed N e s u its))" for r'
    proof -
      from that obtain r where r: "r \<in> set (tickets s)"
        "r' = r\<lparr>quantity_available := quantity_available r - tier_quantity (tier r) its\<rparr>"
        by (auto simp: committed_def foldl_decrement)
      from cons [OF r(1)] r(2) show ?thesis
        by (simp add: paid_quantity_committed [OF ap])
    qed
    with all_paid_committed [OF ap] tiers totals tickets_committed [of N e s u its] 2
    show ?thesis by simp
  qed
qed

text \<open>
  Claim C4. In every reachable store the table \<^verbatim>\<open>tickets\<close> still has the three seeded
  tiers with their \<open>total_quantity\<close>, and for every tier \<open>total_quantity\<close> minus
  \<open>quantity_available\<close> is the sum of \<^verbatim>\<open>quantity\<close> over the order items of that tier
  that belong to a \<^verbatim>\<open>PAID\<close> order.
\<close>

theorem sold_equals_paid:
  assumes "reachable N s"
  shows "map tier (tickets s) = map tier (tickets seeded) \<and>
         map total_quantity (tickets s) = map total_quantity (tickets seeded) \<and>
         (\<forall>r\<in>set (tickets s). total_quantity r - quantity_available r = paid_quantity s (tier r)) \<and>
         map (\<lambda>r. total_quantity r - quantity_available r) (tickets s) =
           map (paid_quantity s) [''VIP'', ''FRONT_ROW'', ''GA'']"
proof -
  from reachable_invariant [OF assms]
  have tiers: "map tier (tickets s) = map tier (tickets seeded)"
    and totals: "map total_quantity (tickets s) = map total_quantity (tickets seeded)"
    and cons: "\<forall>r\<in>set (tickets s). total_quantity r - quantity_available r = paid_quantity s (tier r)"
    by blast+
  from cons have "map (\<lambda>r. total_quantity r - quantity_available r) (tickets s) =
                  map (paid_quantity s) (map tier (tickets s))"
    by simp
  also have "map tier (tickets s) = [''VIP'', ''FRONT_ROW'', ''GA'']"
    by (simp add: tiers seeded_def)
  finally show ?thesis
    using tiers totals cons by blast
qed

text \<open>
  The store after the cart with two lines of 6 VIP tickets: the three tiers are there,
  12 VIP tickets are sold and 12 are paid, none of the other tiers.
\<close>

theorem sold_equals_paid_witness:
  "reachable decimal (store (book decimal calm seeded
      (cart_request ''test-user-1'' [(''VIP'', 6), (''VIP'', 6)]))) \<and>
   map tier (tickets (store (book decimal calm seeded
      (cart_request ''test-user-1'' [(''VIP'', 6), (''VIP'', 6)])))) =
     [''VIP'', ''FRONT_ROW'', ''GA''] \<and>
   map (\<lambda>r. total_quantity r - quantity_available r) (tickets (store (book decimal calm seeded
      (cart_request ''test-user-1'' [(''VIP'', 6), (''VIP'', 6)])))) = [12, 0, 0] \<and>
   map (paid_quantity (store (book decimal calm seeded
      (cart_request ''test-user-1'' [(''VIP'', 6), (''VIP'', 6)]))))
     [''VIP'', ''FRONT_ROW'', ''GA''] = [12, 0, 0]"
proof -
  let ?S = "store (book decimal calm seeded
      (cart_request ''test-user-1'' [(''VIP'', 6), (''VIP'', 6)]))"
  have r: "reachable decimal ?S"
    by (rule reachable.call [OF reachable.seed])
  have q: "map (paid_quantity ?S) [''VIP'', ''FRONT_ROW'', ''GA''] = [12, 0, 0]"
    by (simp add: run_defs cart_request_def paid_quantity_def paid_def)
  from sold_equals_paid [OF r]
  have t: "map tier (tickets ?S) = map tier (tickets seeded)"
    and c: "map (\<lambda>r. total_quantity r - quantity_available r) (tickets ?S) =
              map (paid_quantity ?S) [''VIP'', ''FRONT_ROW'', ''GA'']"
    by blast+
  have t': "map tier (tickets ?S) = [''VIP'', ''FRONT_ROW'', ''GA'']"
    unfolding t by (simp add: seeded_def)
  from r t' c q show ?thesis by simp
qed

section \<open>Checks, payment and writes within one call\<close>

lemma sent_refuse: "sent (refuse e c f sofar :: 'a outcome) = sofar @ [ROLLBACK]"
  by (simp add: refuse_def)

lemma lock_rows_sent:
  "\<exists>L. sent (lock_rows N e tk cart t0 its0 log0) = log0 @ L \<and> \<not> list_ex is_update L"
proof (induction cart arbitrary: t0 its0 log0)
  case Nil
  show ?case by simp
next
  case (Cons c cart)
  show ?case
  proof (cases "rejects e (length log0)")
    case True
    then show ?thesis by simp
  next
    case nr: False
    show ?thesis
    proof (cases "filter (\<lambda>r. tier r = item_tier c) tk")
      case Nil
      with nr show ?thesis by (simp add: sent_refuse)
    next
      case (Cons row others)
      show ?thesis
      proof (cases "item_quantity c > quantity_available row")
        case True
        with nr Cons show ?thesis by (simp add: sent_refuse)
      next
        case False
        let ?l = "\<lparr>line_tier = item_tier c, line_quantity = item_quantity c,
                   priceAtPurchase = price_usd row\<rparr>"
        from Cons.IH [of "add_line N t0 ?l" "its0 @ [?l]" "log0 @ [SELECT_FOR_UPDATE (item_tier c)]"]
        obtain L where L:
          "sent (lock_rows N e tk cart (add_line N t0 ?l) (its0 @ [?l])
                   (log0 @ [SELECT_FOR_UPDATE (item_tier c)])) =
             (log0 @ [SELECT_FOR_UPDATE (item_tier c)]) @ L" "\<not> list_ex is_update L"
          by blast
        show ?thesis
          by (rule exI [of _ "SELECT_FOR_UPDATE (item_tier c) # L"])
             (use nr Cons False L in \<open>simp add: Let_def add_line_def\<close>)
      qed
    qed
  qed
qed

lemma write_items_sent:
  "\<exists>L. sent (write_items e orderId its w log0) = log0 @ L \<and> \<not> list_ex is_select L"
proof (induction its arbitrary: w log0)
  case Nil
  show ?case by simp
next
  case (Cons l its)
  let ?w1 = "w\<lparr>order_items := order_items w @ [item_row orderId l],
               tickets := decrement (tickets w) l\<rparr>"
  from Cons.IH [of ?w1 "log0 @ item_stmts orderId l"]
  obtain L where L: "sent (write_items e orderId its ?w1 (log0 @ item_stmts orderId l)) =
                       (log0 @ item_stmts orderId l) @ L" "\<not> list_ex is_select L"
    by blast
  show ?case
  proof (cases "rejects e (length log0)")
    case True
    then show ?thesis by (simp add: Let_def)
  next
    case nr: False
    show ?thesis
    proof (cases "rejects e (Suc (length log0))")
      case True
      with nr show ?thesis by (simp add: Let_def)
    next
      case False
      show ?thesis
        by (rule exI [of _ "item_stmts orderId l @ L"])
           (use nr False L in \<open>simp add: Let_def item_row_def decrement_def item_stmts_def\<close>)
    qed
  qed
qed

lemma sent_commit:
  "\<exists>C. sent (and_then x (\<lambda>w sofar. if rejects e (length sofar) then Thrown (sofar @ [COMMIT])
                               else Proceed (f w) (sofar @ [COMMIT]))) = sent x @ C \<and>
       \<not> list_ex is_select C"
proof (cases x)
  case (Proceed w sofar)
  then show ?thesis
    by (intro exI [of _ "[COMMIT]"]) simp
qed (simp_all)

lemma transaction_updates:
  assumes upd: "list_ex is_update (sent (transaction N e s u cart))"
  shows "\<exists>its rest. list_all2 (validated (tickets s)) cart its \<and>
           simulatePayment e u (foldl (add_line N) (num_zero N) its) \<and>
           sent (transaction N e s u cart) =
             BEGIN # map (\<lambda>c. SELECT_FOR_UPDATE (item_tier c)) cart @ rest \<and>
           \<not> list_ex is_select rest"
proof -
  from upd have nr0: "\<not> rejects e 0"
    by (auto simp: transaction_def split: if_splits)
  let ?lr = "lock_rows N e (tickets s) cart (num_zero N) [] [BEGIN]"
  from lock_rows_sent [of N e "tickets s" cart "num_zero N" "[]" "[BEGIN]"]
  obtain L where L: "sent ?lr = [BEGIN] @ L" "\<not> list_ex is_update L"
    by blast
  show ?thesis
  proof (cases ?lr)
    case (Thrown l)
    with nr0 L upd show ?thesis by (simp add: transaction_def)
  next
    case (Returned r l)
    with nr0 L upd show ?thesis by (simp add: transaction_def)
  next
    case (Proceed x l1)
    obtain t its where x: "x = (t, its)" by (cases x)
    from lock_rows_Proceed [OF Proceed [unfolded x]] have its:
      "list_all2 (validated (tickets s)) cart its" "t = foldl (add_line N) (num_zero N) its"
      "l1 = BEGIN # map (\<lambda>c. SELECT_FOR_UPDATE (item_tier c)) cart"
      by auto
    have noupd: "\<not> list_ex is_update l1"
      using its(3) by (simp add: list_ex_iff image_iff)
    show ?thesis
    proof (cases "simulatePayment e u t")
      case False
      with nr0 Proceed x have "sent (transaction N e s u cart) = l1 @ [ROLLBACK]"
        by (simp add: transaction_def sent_refuse)
      with upd noupd show ?thesis by simp
    next
      case pay: True
      show ?thesis
      proof (cases "rejects e (length l1) \<or> uuid_generate_v4 e \<in> set (map o_id (orders s))")
        case True
        with nr0 Proceed x pay have "sent (transaction N e s u cart) =
            l1 @ [INSERT_ORDER u (toFixed2 N t) ''PAID'']"
          by (auto simp: transaction_def insert_order_def)
        with upd noupd show ?thesis by simp
      next
        case False
        let ?w1 = "s\<lparr>orders := orders s @
                       [\<lparr>o_id = uuid_generate_v4 e, user_id = u, total_amount = toFixed2 N t,
                         status = ''PAID'', created_at = current_timestamp e\<rparr>]\<rparr>"
        let ?l2 = "l1 @ [INSERT_ORDER u (toFixed2 N t) ''PAID'']"
        let ?wi = "write_items e (uuid_generate_v4 e) its ?w1 ?l2"
        let ?f = "\<lambda>w. (\<lparr>code = 201,
                          body = Data (uuid_generate_v4 e) u (toFixed2 N t) its ''PAID''\<rparr>, w)"
        from nr0 Proceed x pay False
        have tr: "transaction N e s u cart =
                    and_then ?wi (\<lambda>w sofar. if rejects e (length sofar) then Thrown (sofar @ [COMMIT])
                                           else Proceed (?f w) (sofar @ [COMMIT]))"
          by (simp add: transaction_def insert_order_def)
        from write_items_sent [of e "uuid_generate_v4 e" its ?w1 ?l2]
        obtain W where W: "sent ?wi = ?l2 @ W" "\<not> list_ex is_select W"
          by blast
        from sent_commit [of ?wi e ?f]
        obtain C where C: "sent (transaction N e s u cart) = sent ?wi @ C" "\<not> list_ex is_select C"
          unfolding tr by blast
        show ?thesis
          by (intro exI [of _ its] exI [of _ "INSERT_ORDER u (toFixed2 N t) ''PAID'' # W @ C"])
             (use its pay W C in simp)
      qed
    qed
  qed
qed


lemma lock_rows_passes:
  assumes "\<forall>k. \<not> rejects e k" and "list_all2 (validated tk) cart its"
  shows "lock_rows N e tk cart t0 its0 log0 =
           Proceed (foldl (add_line N) t0 its, its0 @ its)
             (log0 @ map (\<lambda>c. SELECT_FOR_UPDATE (item_tier c)) cart)"
  using assms(2)
proof (induction arbitrary: t0 its0 log0 rule: list_all2_induct)
  case Nil
  show ?case by simp
next
  case (Cons c cart l its)
  from Cons.hyps(1) obtain row where row: "first_row tk (item_tier c) = Some row"
    "priceAtPurchase l = price_usd row" "item_quantity c \<le> quantity_available row"
    "line_tier l = item_tier c" "line_quantity l = item_quantity c"
    by (auto simp: validated_def split: option.splits)
  from first_row_filter [OF row(1)] obtain others where
    rows: "filter (\<lambda>r. tier r = item_tier c) tk = row # others"
    by blast
  have l: "\<lparr>line_tier = item_tier c, line_quantity = item_quantity c,
            priceAtPurchase = price_usd row\<rparr> = l"
    using row by simp
  have al: "num_add N t0 (num_mul N (parseFloat N (price_usd row)) (item_quantity c)) =
            add_line N t0 l"
    using row by (simp add: add_line_def)
  show ?case
    using assms(1) rows row(3) Cons.IH
    by (simp add: Let_def l al)
qed

lemma write_items_passes:
  assumes "\<forall>k. \<not> rejects e k"
  shows "write_items e orderId its w sofar =
           Proceed (w\<lparr>order_items := order_items w @ map (item_row orderId) its,
                      tickets := foldl decrement (tickets w) its\<rparr>)
             (sofar @ concat (map (item_stmts orderId) its))"
proof (induction its arbitrary: w sofar)
  case Nil
  show ?case by simp
next
  case (Cons l its)
  show ?case
    using assms
    by (simp add: Let_def Cons.IH item_row_def decrement_def item_stmts_def)
qed

lemma simulatePayment_iff: "simulatePayment e u amount \<longleftrightarrow> prefix ''test-user'' u \<or> random_lt_095 e"
  by (simp add: simulatePayment_def)

lemma book_succeeds:
  assumes "u \<noteq> []" and "cart \<noteq> []" and "\<forall>k. \<not> rejects e k"
    and "uuid_generate_v4 e \<notin> set (map o_id (orders s))"
    and "prefix ''test-user'' u \<or> random_lt_095 e"
    and "list_all2 (validated (tickets s)) cart its"
  shows "book N e s \<lparr>userId = Some u, cartItems = Some cart\<rparr> =
           \<lparr>reply = \<lparr>code = 201,
                      body = Data (uuid_generate_v4 e) u (order_total N its) its ''PAID''\<rparr>,
            store = committed N e s u its,
            trace = success_trace N e u cart its\<rparr>"
proof -
  have pay: "simulatePayment e u (foldl (add_line N) (num_zero N) its)"
    using assms(5) by (simp add: simulatePayment_iff)
  have "transaction N e s u cart =
          Proceed (\<lparr>code = 201,
                    body = Data (uuid_generate_v4 e) u (order_total N its) its ''PAID''\<rparr>,
                   committed N e s u its)
            (success_trace N e u cart its)"
    using assms(3,4) pay
    by (simp add: transaction_def lock_rows_passes [OF assms(3,6)] insert_order_def
        write_items_passes [OF assms(3)] order_total_def committed_def new_order_def
        success_trace_def)
  with assms(1,2) show ?thesis
    by (simp add: book_def)
qed

lemma book_trace:
  "\<exists>T. trace (book N e s \<lparr>userId = Some u, cartItems = Some cart\<rparr>) = T \<and>
       (T = [] \<or> (\<exists>R. T = sent (transaction N e s u cart) @ R \<and> \<not> list_ex is_select R \<and>
                       \<not> list_ex is_update R))"
proof (cases "u = [] \<or> cart = []")
  case True
  then show ?thesis by (auto simp: book_def)
next
  case False
  show ?thesis
  proof (cases "transaction N e s u cart")
    case (Thrown sofar)
    with False have "trace (book N e s \<lparr>userId = Some u, cartItems = Some cart\<rparr>) =
        sent (transaction N e s u cart) @ [ROLLBACK]"
      by (simp add: book_def)
    then show ?thesis by simp
  next
    case (Returned r sofar)
    with False have "trace (book N e s \<lparr>userId = Some u, cartItems = Some cart\<rparr>) =
        sent (transaction N e s u cart) @ []"
      by (simp add: book_def)
    then show ?thesis by simp
  next
    case (Proceed x sofar)
    with False have "trace (book N e s \<lparr>userId = Some u, cartItems = Some cart\<rparr>) =
        sent (transaction N e s u cart) @ []"
      by (cases x) (simp add: book_def)
    then show ?thesis by simp
  qed
qed

lemma first_row_update_tickets:
  "first_row (update_tickets t q tk) t =
     map_option (\<lambda>r. r\<lparr>quantity_available := quantity_available r - q\<rparr>) (first_row tk t)"
  by (induction tk) (simp_all add: first_row_def update_tickets_def)

lemma lock_rows_insufficient:
  "lock_rows N e tk cart t0 its0 log0 = Returned r sofar \<Longrightarrow>
   body r = Error (InsufficientStock t q a) \<Longrightarrow>
     \<exists>c\<in>set cart. \<exists>row. item_tier c = t \<and> item_quantity c = q \<and>
        first_row tk t = Some row \<and> quantity_available row = a \<and> a < q"
proof (induction cart arbitrary: t0 its0 log0)
  case Nil
  then show ?case by simp
next
  case (Cons c cart)
  from Cons.prems(1) have nr: "\<not> rejects e (length log0)"
    by (auto split: if_splits)
  show ?case
  proof (cases "filter (\<lambda>r. tier r = item_tier c) tk")
    case Nil
    with Cons.prems nr show ?thesis
      by (auto simp: refuse_def Let_def split: if_splits)
  next
    case rows: (Cons row others)
    show ?thesis
    proof (cases "item_quantity c > quantity_available row")
      case True
      with Cons.prems nr rows filter_Cons_first_row [OF rows] show ?thesis
        by (auto simp: refuse_def Let_def split: if_splits)
    next
      case False
      with Cons.prems(1) nr rows
      have "lock_rows N e tk cart
              (num_add N t0 (num_mul N (parseFloat N (price_usd row)) (item_quantity c)))
              (its0 @ [\<lparr>line_tier = item_tier c, line_quantity = item_quantity c,
                        priceAtPurchase = price_usd row\<rparr>])
              (log0 @ [SELECT_FOR_UPDATE (item_tier c)]) = Returned r sofar"
        by (simp add: Let_def)
      from Cons.IH [OF this Cons.prems(2)] show ?thesis by auto
    qed
  qed
qed

lemma book_insufficient:
  assumes "body (reply (book N e s \<lparr>userId = Some u, cartItems = Some cart\<rparr>)) =
             Error (InsufficientStock t q a)"
  shows "\<exists>c\<in>set cart. \<exists>row. item_tier c = t \<and> item_quantity c = q \<and>
           first_row (tickets s) t = Some row \<and> quantity_available row = a \<and> a < q"
proof (cases "u = [] \<or> cart = []")
  case True
  with assms show ?thesis by (auto simp: book_def)
next
  case False
  show ?thesis
  proof (cases "transaction N e s u cart")
    case (Thrown sofar)
    with assms False show ?thesis by (simp add: book_def)
  next
    case (Proceed x sofar)
    obtain r w where x: "x = (r, w)" by (cases x)
    from transaction_Proceed [OF Proceed [unfolded x]] assms False Proceed x
    show ?thesis by (auto simp: book_def)
  next
    case (Returned r sofar)
    with assms False have r: "body r = Error (InsufficientStock t q a)"
      by (simp add: book_def)
    show ?thesis
    proof (cases "lock_rows N e (tickets s) cart (num_zero N) [] [BEGIN]")
      case (Thrown l)
      with Returned show ?thesis by (auto simp: transaction_def split: if_splits)
    next
      case lr: (Returned r' l)
      with Returned have "r' = r" by (auto simp: transaction_def split: if_splits)
      with lock_rows_insufficient [OF lr] r show ?thesis by simp
    next
      case (Proceed x l)
      obtain tot its where x: "x = (tot, its)" by (cases x)
      show ?thesis
      proof (cases "simulatePayment e u tot")
        case False
        with Returned Proceed x r show ?thesis
          by (auto simp: transaction_def refuse_def split: if_splits)
      next
        case True
        with Returned Proceed x
        have "and_then (insert_order e u (toFixed2 N tot) s l)
                 (\<lambda>(orderId, w) sofar.
                    and_then (write_items e orderId its w sofar)
                      (\<lambda>w sofar.
                         if rejects e (length sofar) then Thrown (sofar @ [COMMIT])
                         else Proceed
                                (\<lparr>code = 201,
                                  body = Data orderId u (toFixed2 N tot) its ''PAID''\<rparr>, w)
                                (sofar @ [COMMIT]))) = Returned r sofar"
          by (auto simp: transaction_def split: if_splits)
        then have False
          by (cases "write_items e (uuid_generate_v4 e) its
                   (s\<lparr>orders := orders s @
                       [\<lparr>o_id = uuid_generate_v4 e, user_id = u, total_amount = toFixed2 N tot,
                         status = ''PAID'', created_at = current_timestamp e\<rparr>]\<rparr>)
                   (l @ [INSERT_ORDER u (toFixed2 N tot) ''PAID''])")
             (auto simp: insert_order_def write_items_not_Returned split: if_splits)
        then show ?thesis ..
      qed
    qed
  qed
qed

text \<open>
  Claim C9. Within one call, a line is refused for insufficient stock exactly against the
  \<^verbatim>\<open>quantity_available\<close> of the row read from the store the call started with. A stock
  update is sent only after every line of the cart has been locked and has passed its
  check against that store, in the order of the cart, and after the payment has been
  accepted; no lock-and-read follows. So for a cart with two lines of the same tier,
  both lines are checked against the same availability: when no statement throws, the
  generated id is new and the payment is accepted, the call is answered 201 as soon as
  each of the two quantities, not their sum, is at most that availability, and the row
  loses both quantities.
\<close>

theorem checks_precede_decrements:
  "(body (reply (book N e s \<lparr>userId = Some u, cartItems = Some cart\<rparr>)) =
      Error (InsufficientStock t' q a) \<longrightarrow>
      (\<exists>c\<in>set cart. \<exists>row. item_tier c = t' \<and> item_quantity c = q \<and>
          first_row (tickets s) t' = Some row \<and> quantity_available row = a \<and> a < q)) \<and>
   (list_ex is_update (trace (book N e s \<lparr>userId = Some u, cartItems = Some cart\<rparr>)) \<longrightarrow>
      (\<exists>its rest.
          list_all2 (validated (tickets s)) cart its \<and>
          simulatePayment e u (foldl (add_line N) (num_zero N) its) \<and>
          trace (book N e s \<lparr>userId = Some u, cartItems = Some cart\<rparr>) =
            BEGIN # map (\<lambda>c. SELECT_FOR_UPDATE (item_tier c)) cart @ rest \<and>
          \<not> list_ex is_select rest)) \<and>
   (u \<noteq> [] \<and> (\<forall>k. \<not> rejects e k) \<and> uuid_generate_v4 e \<notin> set (map o_id (orders s)) \<and>
    (prefix ''test-user'' u \<or> random_lt_095 e) \<and>
    first_row (tickets s) t = Some row \<and>
    q1 \<le> quantity_available row \<and> q2 \<le> quantity_available row \<longrightarrow>
      code (reply (book N e s (cart_request u [(t, q1), (t, q2)]))) = 201 \<and>
      tickets (store (book N e s (cart_request u [(t, q1), (t, q2)]))) =
        update_tickets t q2 (update_tickets t q1 (tickets s)) \<and>
      first_row (tickets (store (book N e s (cart_request u [(t, q1), (t, q2)])))) t =
        Some (row\<lparr>quantity_available := quantity_available row - q1 - q2\<rparr>))"
proof (intro conjI impI)
  assume "body (reply (book N e s \<lparr>userId = Some u, cartItems = Some cart\<rparr>)) =
      Error (InsufficientStock t' q a)"
  then show "\<exists>c\<in>set cart. \<exists>row. item_tier c = t' \<and> item_quantity c = q \<and>
          first_row (tickets s) t' = Some row \<and> quantity_available row = a \<and> a < q"
    by (rule book_insufficient)
next
  let ?R = "book N e s \<lparr>userId = Some u, cartItems = Some cart\<rparr>"
  assume upd: "list_ex is_update (trace ?R)"
  from book_trace [of N e s u cart] upd
  obtain R where R: "trace ?R = sent (transaction N e s u cart) @ R"
    "\<not> list_ex is_select R" "\<not> list_ex is_update R"
    by auto
  with upd have "list_ex is_update (sent (transaction N e s u cart))"
    by simp
  from transaction_updates [OF this]
  obtain its rest where its: "list_all2 (validated (tickets s)) cart its"
    "simulatePayment e u (foldl (add_line N) (num_zero N) its)"
    "sent (transaction N e s u cart) =
       BEGIN # map (\<lambda>c. SELECT_FOR_UPDATE (item_tier c)) cart @ rest"
    "\<not> list_ex is_select rest"
    by blast
  show "\<exists>its rest.
          list_all2 (validated (tickets s)) cart its \<and>
          simulatePayment e u (foldl (add_line N) (num_zero N) its) \<and>
          trace ?R = BEGIN # map (\<lambda>c. SELECT_FOR_UPDATE (item_tier c)) cart @ rest \<and>
          \<not> list_ex is_select rest"
    by (intro exI [of _ its] exI [of _ "rest @ R"]) (use its R in simp)
next
  let ?B = "book N e s (cart_request u [(t, q1), (t, q2)])"
  let ?cart = "[\<lparr>item_tier = t, item_quantity = q1\<rparr>, \<lparr>item_tier = t, item_quantity = q2\<rparr>]"
  let ?its = "[\<lparr>line_tier = t, line_quantity = q1, priceAtPurchase = price_usd row\<rparr>,
               \<lparr>line_tier = t, line_quantity = q2, priceAtPurchase = price_usd row\<rparr>]"
  assume h: "u \<noteq> [] \<and> (\<forall>k. \<not> rejects e k) \<and>
    uuid_generate_v4 e \<notin> set (map o_id (orders s)) \<and>
    (prefix ''test-user'' u \<or> random_lt_095 e) \<and>
    first_row (tickets s) t = Some row \<and>
    q1 \<le> quantity_available row \<and> q2 \<le> quantity_available row"
  then have v: "list_all2 (validated (tickets s)) ?cart ?its"
    by (simp add: validated_def)
  from h have B: "?B =
           \<lparr>reply = \<lparr>code = 201,
                      body = Data (uuid_generate_v4 e) u (order_total N ?its) ?its ''PAID''\<rparr>,
            store = committed N e s u ?its,
            trace = success_trace N e u ?cart ?its\<rparr>"
    using book_succeeds [OF _ _ _ _ _ v, of u e N] by (simp add: cart_request_def)
  show "code (reply ?B) = 201"
    by (simp add: B)
  show tk: "tickets (store ?B) = update_tickets t q2 (update_tickets t q1 (tickets s))"
    by (simp add: B committed_def decrement_def)
  show "first_row (tickets (store ?B)) t =
          Some (row\<lparr>quantity_available := quantity_available row - q1 - q2\<rparr>)"
    using h by (simp add: tk first_row_update_tickets)
qed

text \<open>Two lines of 6 VIP tickets against 10 available: answered 201, and \<open>- 2\<close> are left.\<close>

theorem checks_precede_decrements_witness:
  "list_ex is_update (trace (book decimal calm seeded
      (cart_request ''test-user-1'' [(''VIP'', 6), (''VIP'', 6)]))) \<and>
   first_row (tickets seeded) ''VIP'' =
     Some \<lparr>ticket_id = 1, tier = ''VIP'', price_usd = 10000, quantity_available = 10,
           total_quantity = 10\<rparr> \<and>
   (6 :: int) \<le> 10 \<and> (10 :: int) < 6 + 6 \<and>
   code (reply (book decimal calm seeded
      (cart_request ''test-user-1'' [(''VIP'', 6), (''VIP'', 6)]))) = 201 \<and>
   first_row (tickets (store (book decimal calm seeded
      (cart_request ''test-user-1'' [(''VIP'', 6), (''VIP'', 6)])))) ''VIP'' =
     Some \<lparr>ticket_id = 1, tier = ''VIP'', price_usd = 10000, quantity_available = - 2,
           total_quantity = 10\<rparr>"
proof -
  let ?row = "\<lparr>ticket_id = 1, tier = ''VIP'', price_usd = 10000, quantity_available = 10,
               total_quantity = 10\<rparr>"
  have h: "''test-user-1'' \<noteq> [] \<and> (\<forall>k. \<not> rejects calm k) \<and>
    uuid_generate_v4 calm \<notin> set (map o_id (orders seeded)) \<and>
    (prefix ''test-user'' ''test-user-1'' \<or> random_lt_095 calm) \<and>
    first_row (tickets seeded) ''VIP'' = Some ?row \<and>
    6 \<le> quantity_available ?row \<and> 6 \<le> quantity_available ?row"
    by (simp add: calm_def seeded_def first_row_def)
  have u: "list_ex is_update (trace (book decimal calm seeded
      (cart_request ''test-user-1'' [(''VIP'', 6), (''VIP'', 6)])))"
    by (simp add: run_defs cart_request_def)
  note r = checks_precede_decrements [of decimal calm seeded "''test-user-1''"
      "[\<lparr>item_tier = ''VIP'', item_quantity = 6\<rparr>, \<lparr>item_tier = ''VIP'', item_quantity = 6\<rparr>]"
      "''VIP''" 0 0 "''VIP''" ?row 6 6, THEN conjunct2, THEN conjunct2, THEN mp, OF h]
  from h have fr: "first_row (tickets seeded) ''VIP'' = Some ?row"
    by (elim conjE)
  from u fr r [THEN conjunct1] r [THEN conjunct2, THEN conjunct2] show ?thesis by simp
qed

section \<open>Binary64 sums\<close>

lemma foldl_add_row_decimal:
  "foldl (add_row decimal) a ls = a + exact_sum ls"
  by (induction ls arbitrary: a)
     (simp_all add: add_row_def decimal_def exact_sum_def algebra_simps)

lemma recomputed_decimal: "recomputed decimal ls = exact_sum ls"
  by (simp add: recomputed_def foldl_add_row_decimal) (simp add: decimal_def)









section \<open>Prices at purchase\<close>


















section \<open>The total of a call\<close>






end
